theory Spec2Isabelle
  imports Complex_Main
begin

section \<open>Python floats\<close>

text \<open>
  Times are Python floats (IEEE doubles) in the source. A double is taken as the real
  number it denotes, and an operation that rounds is followed by \<open>to_double\<close>, rounding to
  the nearest double, ties to the even significand: 53 significant bits, the exponent of
  the last place never below \<open>-1074\<close>. The function is used on magnitudes below
  \<open>2 ^ 1024 - 2 ^ 970\<close> only, where doubles are finite; at or above it the conversion of a
  Python \<open>int\<close> to a float raises \<open>OverflowError\<close>.
\<close>

definition round_half_even :: "real \<Rightarrow> int" where
  "round_half_even q =
     (let f = \<lfloor>q\<rfloor>; r = q - of_int f
      in if r < 1 / 2 then f else if 1 / 2 < r then f + 1 else if even f then f else f + 1)"

definition ulp_exponent :: "real \<Rightarrow> int" where
  "ulp_exponent x = max \<lfloor>log 2 \<bar>x\<bar>\<rfloor> (- 1022) - 52"

definition to_double :: "real \<Rightarrow> real" where
  "to_double x =
     (if x = 0 then 0
      else of_int (round_half_even (x / 2 powi ulp_exponent x)) * 2 powi ulp_exponent x)"

definition int_too_large_for_float :: "int \<Rightarrow> bool" where
  "int_too_large_for_float n \<longleftrightarrow> 2 ^ 1024 - 2 ^ 970 \<le> \<bar>n\<bar>"

section \<open>What the remote side answers\<close>

text \<open>
  The clients interpret only the status code and the \<open>Retry-After\<close> header of a response;
  bodies are opaque. One request attempt either raises inside the \<open>try\<close> block or yields a
  response.
\<close>

type_synonym json = string

text \<open>
  The exception classes the handlers tell apart: \<open>asyncio.TimeoutError\<close>,
  \<open>aiohttp.ClientError\<close> (or \<open>ConnectionError\<close>), the \<open>ValueError\<close> that \<open>int(...)\<close>
  raises, the \<open>OverflowError\<close> of a conversion to float, any other subclass of
  \<open>Exception\<close>, and \<open>asyncio.CancelledError\<close>, which stands for the exceptions that derive
  from \<open>BaseException\<close> only and that no \<open>except Exception\<close> catches.
\<close>

datatype exn = TimeoutError | ClientError | ValueError | OverflowError | OtherError | CancelledError

text \<open>
  \<open>response.headers.get('Retry-After', 1)\<close> passed to \<open>int\<close>: the header is absent, or
  holds a text that \<open>int\<close> accepts (denoting that integer), or a text on which \<open>int\<close> raises
  \<open>ValueError\<close> (an HTTP date, for instance).
\<close>

datatype retry_after = Absent | IntText int | Unparsable

fun int_retry_after :: "retry_after \<Rightarrow> exn + int" where
  "int_retry_after Absent = Inr 1"
| "int_retry_after (IntText n) = Inr n"
| "int_retry_after Unparsable = Inl ValueError"

text \<open>
  What reading the body does (\<open>await response.json()\<close> after a 200,
  \<open>await response.text()\<close> otherwise): it yields the body or raises.
\<close>

datatype body_read = ReadOk json | ReadRaises exn

datatype reply = Raises exn | Response int retry_after body_read

text \<open>
  What the world supplies to one attempt: the reply; the value that
  \<open>random.uniform(0, 1)\<close> returns if the attempt draws one; whether the task is cancelled
  while the attempt sleeps, if it does; and the two readings of
  \<open>time.time() - start_time\<close> that the performance tester can take, the one when the
  response arrives and the one that its \<open>except\<close> clause takes if it runs.
\<close>

record attempt_env =
  answer :: reply
  jitter :: real
  cancelled_asleep :: bool
  elapsed :: real
  elapsed_exc :: real

definition plain :: "reply \<Rightarrow> attempt_env" where
  "plain r = \<lparr>answer = r, jitter = 0, cancelled_asleep = False, elapsed = 0, elapsed_exc = 0\<rparr>"

definition timed :: "reply \<Rightarrow> real \<Rightarrow> attempt_env" where
  "timed r rt = \<lparr>answer = r, jitter = 0, cancelled_asleep = False, elapsed = rt, elapsed_exc = rt\<rparr>"

text \<open>
  \<open>await asyncio.sleep(delay)\<close>: what it raises, if anything. A positive \<open>int\<close> too
  large for a float raises \<open>OverflowError\<close> when the loop adds it to its clock; otherwise
  the sleep starts, and ends early with \<open>CancelledError\<close> if the task is cancelled.
\<close>

definition asyncio_sleep_int :: "int \<Rightarrow> bool \<Rightarrow> exn option" where
  "asyncio_sleep_int delay cancelled =
     (if 0 < delay \<and> int_too_large_for_float delay then Some OverflowError
      else if cancelled then Some CancelledError else None)"

definition asyncio_sleep_float :: "real \<Rightarrow> bool \<Rightarrow> exn option" where
  "asyncio_sleep_float delay cancelled = (if cancelled then Some CancelledError else None)"

text \<open>The result of a call and the dictionary it returns, shared by the two clients.\<close>

datatype result = Parsed json | ErrorDict int "exn option"

section \<open>ResilientCalendarClient.make_resilient_request\<close>

text \<open>
  The \<open>stats\<close> dictionary of the client, the local \<open>last_exception\<close> of the call, and
  \<open>slept\<close>, the arguments of the calls of \<open>asyncio.sleep\<close> that started sleeping, in order.
\<close>

record resilient =
  total_attempts :: int
  successful_requests :: int
  failed_requests :: int
  retries_performed :: int
  rate_limits_hit :: int
  network_errors :: int
  timeout_errors :: int
  last_exception :: "exn option"
  slept :: "real list"

text \<open>
  How one iteration of the loop ends: with \<open>return\<close>, by going on to the next iteration
  (\<open>continue\<close>, or falling off the end of the body), with \<open>break\<close>, or with an exception
  that no clause catches and that reaches the caller.
\<close>

datatype control = Return json | Next | Break | Raise exn

definition sleep :: "real \<Rightarrow> resilient \<Rightarrow> resilient" where
  "sleep d c = c\<lparr>slept := slept c @ [d]\<rparr>"

text \<open>
  \<open>(2 ** attempt) + random.uniform(0, 1)\<close>: the \<open>int\<close> is converted to a float, which
  raises for \<open>2 ** 1024\<close> and beyond, and the sum is rounded.
\<close>

definition backoff_time :: "nat \<Rightarrow> real \<Rightarrow> exn + real" where
  "backoff_time attempt j =
     (if 1024 \<le> attempt then Inl OverflowError else Inr (to_double (2 ^ attempt + j)))"

text \<open>
  The statements shared by the server-error branch and the two transient handlers:
  \<open>if attempt < max_retries: retries_performed += 1; backoff_time = ...;
  await asyncio.sleep(backoff_time); continue\<close>. The result says which exception they
  raise, if any; what catches it depends on where they stand.
\<close>

definition retry_with_backoff ::
  "int \<Rightarrow> nat \<Rightarrow> attempt_env \<Rightarrow> resilient \<Rightarrow> exn option \<times> resilient" where
  "retry_with_backoff max_retries attempt env c =
     (if int attempt < max_retries then
        (let c1 = c\<lparr>retries_performed := retries_performed c + 1\<rparr> in
         case backoff_time attempt (jitter env) of
           Inl e \<Rightarrow> (Some e, c1)
         | Inr d \<Rightarrow> (asyncio_sleep_float d (cancelled_asleep env), sleep d c1))
      else (None, c))"

text \<open>
  The same statements inside an \<open>except\<close> clause: an exception raised there is caught by
  none of the sibling clauses and leaves the function.
\<close>

definition in_handler :: "exn option \<times> resilient \<Rightarrow> control \<times> resilient" where
  "in_handler p = (case p of (None, c) \<Rightarrow> (Next, c) | (Some e, c) \<Rightarrow> (Raise e, c))"

text \<open>
  The three \<open>except\<close> clauses, in the order of the source, for an exception raised in the
  \<open>try\<close> block. \<open>CancelledError\<close> matches none of them.
\<close>

fun except_clauses :: "int \<Rightarrow> nat \<Rightarrow> attempt_env \<Rightarrow> exn \<Rightarrow> resilient \<Rightarrow> control \<times> resilient" where
  "except_clauses max_retries attempt env TimeoutError c =
     in_handler (retry_with_backoff max_retries attempt env
       (c\<lparr>timeout_errors := timeout_errors c + 1, last_exception := Some TimeoutError\<rparr>))"
| "except_clauses max_retries attempt env ClientError c =
     in_handler (retry_with_backoff max_retries attempt env
       (c\<lparr>network_errors := network_errors c + 1, last_exception := Some ClientError\<rparr>))"
| "except_clauses max_retries attempt env CancelledError c = (Raise CancelledError, c)"
| "except_clauses max_retries attempt env e c = (Break, c\<lparr>last_exception := Some e\<rparr>)"

text \<open>
  Statements of the \<open>try\<close> block that may raise: an exception goes to the clauses, and
  otherwise the iteration ends as given.
\<close>

definition in_try ::
  "int \<Rightarrow> nat \<Rightarrow> attempt_env \<Rightarrow> exn option \<times> resilient \<Rightarrow> control \<Rightarrow> control \<times> resilient" where
  "in_try max_retries attempt env p ctl =
     (case p of
        (None, c) \<Rightarrow> (ctl, c)
      | (Some e, c) \<Rightarrow> except_clauses max_retries attempt env e c)"

text \<open>\<open>await asyncio.sleep(n)\<close> for an \<open>int\<close>, logged when the sleep starts.\<close>

definition sleep_int :: "int \<Rightarrow> attempt_env \<Rightarrow> resilient \<Rightarrow> exn option \<times> resilient" where
  "sleep_int n env c =
     (case asyncio_sleep_int n (cancelled_asleep env) of
        Some OverflowError \<Rightarrow> (Some OverflowError, c)
      | raised \<Rightarrow> (raised, sleep (real_of_int n) c))"

text \<open>The body of the \<open>try\<close> block for one response, by status, in the order of the source.\<close>

definition on_response ::
  "int \<Rightarrow> nat \<Rightarrow> attempt_env \<Rightarrow> int \<Rightarrow> retry_after \<Rightarrow> body_read \<Rightarrow> resilient \<Rightarrow> control \<times> resilient" where
  "on_response max_retries attempt env status hdr body c =
     (if status = 200 then
        (let c1 = c\<lparr>successful_requests := successful_requests c + 1\<rparr> in
         case body of
           ReadOk j \<Rightarrow> (Return j, c1)
         | ReadRaises e \<Rightarrow> except_clauses max_retries attempt env e c1)
      else if status = 429 then
        (let c1 = c\<lparr>rate_limits_hit := rate_limits_hit c + 1\<rparr> in
         case int_retry_after hdr of
           Inl e \<Rightarrow> except_clauses max_retries attempt env e c1
         | Inr n \<Rightarrow>
             (case sleep_int n env c1 of
                (Some e, c2) \<Rightarrow> except_clauses max_retries attempt env e c2
              | (None, c2) \<Rightarrow>
                  if int attempt < max_retries
                  then (Next, c2\<lparr>retries_performed := retries_performed c2 + 1\<rparr>)
                  else (Next, c2)))
      else if status = 401 then
        (if int attempt < max_retries
         then in_try max_retries attempt env
                (sleep_int 1 env (c\<lparr>retries_performed := retries_performed c + 1\<rparr>)) Next
         else (Next, c))
      else if status \<ge> 500 then
        (case body of
           ReadRaises e \<Rightarrow> except_clauses max_retries attempt env e c
         | ReadOk _ \<Rightarrow>
             in_try max_retries attempt env (retry_with_backoff max_retries attempt env c) Next)
      else
        (case body of
           ReadRaises e \<Rightarrow> except_clauses max_retries attempt env e c
         | ReadOk _ \<Rightarrow> (Break, c)))"

text \<open>
  One iteration of \<open>for attempt in range(max_retries + 1)\<close>. The simulator's
  \<open>apply_conditions\<close> and the request share the \<open>try\<close> block, so a simulated failure is a
  \<open>Raises\<close> reply.
\<close>

definition attempt_body :: "int \<Rightarrow> nat \<Rightarrow> attempt_env \<Rightarrow> resilient \<Rightarrow> control \<times> resilient" where
  "attempt_body max_retries attempt env c =
     (let c0 = c\<lparr>total_attempts := total_attempts c + 1\<rparr> in
      case answer env of
        Raises e \<Rightarrow> except_clauses max_retries attempt env e c0
      | Response status hdr body \<Rightarrow> on_response max_retries attempt env status hdr body c0)"

text \<open>
  The loop over the attempt numbers still to run; \<open>world k\<close> is what the world supplies
  to attempt \<open>k\<close>. \<open>Inl\<close> is an exception that reaches the caller.
\<close>

fun request_loop ::
  "(nat \<Rightarrow> attempt_env) \<Rightarrow> int \<Rightarrow> nat list \<Rightarrow> resilient \<Rightarrow> (exn + json option) \<times> resilient" where
  "request_loop world max_retries [] c = (Inr None, c)"
| "request_loop world max_retries (k # ks) c =
     (case attempt_body max_retries k (world k) c of
        (Return j, c') \<Rightarrow> (Inr (Some j), c')
      | (Next, c') \<Rightarrow> request_loop world max_retries ks c'
      | (Break, c') \<Rightarrow> (Inr None, c')
      | (Raise e, c') \<Rightarrow> (Inl e, c'))"

text \<open>
  The call: an exception that reaches the caller, or what it returns, the parsed body
  or the dictionary with the keys \<open>error\<close> (carrying \<open>max_retries + 1\<close>) and
  \<open>last_exception\<close>.
\<close>

definition make_resilient_request ::
  "(nat \<Rightarrow> attempt_env) \<Rightarrow> int \<Rightarrow> resilient \<Rightarrow> (exn + result) \<times> resilient" where
  "make_resilient_request world max_retries c =
     (case request_loop world max_retries [0..<nat (max_retries + 1)]
             (c\<lparr>last_exception := None\<rparr>) of
        (Inl e, c') \<Rightarrow> (Inl e, c')
      | (Inr (Some j), c') \<Rightarrow> (Inr (Parsed j), c')
      | (Inr None, c') \<Rightarrow>
          (Inr (ErrorDict (max_retries + 1) (last_exception c')),
           c'\<lparr>failed_requests := failed_requests c' + 1\<rparr>))"


text \<open>
  No cancellation reaches the call: no attempt and no reading of a body raises
  \<open>CancelledError\<close>, and no sleep is cut short.
\<close>

fun cancels :: "reply \<Rightarrow> bool" where
  "cancels (Raises e) = (e = CancelledError)"
| "cancels (Response st hdr (ReadOk j)) = False"
| "cancels (Response st hdr (ReadRaises e)) = (e = CancelledError)"

definition uncancelled :: "attempt_env \<Rightarrow> bool" where
  "uncancelled env \<longleftrightarrow> \<not> cancels (answer env) \<and> \<not> cancelled_asleep env"

section \<open>CalendarDemoClient.make_request\<close>

text \<open>
  The \<open>stats\<close> dictionary of the demo client (without the two timestamps that only the
  bulk demo writes), and \<open>naps\<close>, the arguments of its calls of \<open>asyncio.sleep\<close> that
  started sleeping, in order.
\<close>

record demo_client =
  total_requests :: int
  successful_requests :: int
  failed_requests :: int
  events_created :: int
  naps :: "real list"









section \<open>CalendarPerformanceTester\<close>

text \<open>
  The dataclass \<open>PerformanceMetrics\<close>, with the fields that the requests determine:
  the counters and the three response-time statistics. The fields read from the clock
  of the run and from \<open>psutil\<close> (\<open>total_time\<close>, \<open>events_per_second\<close>, \<open>memory_usage_mb\<close>,
  \<open>cpu_percent\<close>) are left out.
\<close>

record performance_metrics =
  total_events :: int
  successful_events :: int
  failed_events :: int
  avg_response_time :: real
  min_response_time :: real
  max_response_time :: real
  rate_limited_requests :: int

definition PerformanceMetrics :: performance_metrics where
  "PerformanceMetrics =
     \<lparr>total_events = 0, successful_events = 0, failed_events = 0, avg_response_time = 0,
      min_response_time = 0, max_response_time = 0, rate_limited_requests = 0\<rparr>"

text \<open>
  The tester: its metrics, its list \<open>response_times\<close>, and \<open>waits\<close>, the arguments of the
  calls of \<open>asyncio.sleep\<close> that started sleeping, in order.
\<close>

record tester =
  metrics :: performance_metrics
  response_times :: "real list"
  waits :: "real list"

text \<open>
  The dictionary that \<open>create_single_event\<close> returns, without its payload (\<open>result\<close> or
  \<open>error\<close>).
\<close>

datatype event_result = EventResult (event_id: int) (status: string) (response_time: real)

text \<open>
  How a call of \<open>create_single_event\<close> stands: it has returned; or it has raised (a
  cancellation, which \<open>except Exception\<close> does not catch); or it is suspended for good,
  at \<open>async with self.semaphore\<close> with no slot left, or waiting for a reply that the
  script does not hold.
\<close>

datatype call = Returned event_result | Escaped exn | AwaitingSlot | AwaitingReply

definition record_time :: "real \<Rightarrow> tester \<Rightarrow> tester" where
  "record_time rt t = t\<lparr>response_times := response_times t @ [rt]\<rparr>"

definition count_success :: "tester \<Rightarrow> tester" where
  "count_success t = t\<lparr>metrics := (metrics t)\<lparr>successful_events := successful_events (metrics t) + 1\<rparr>\<rparr>"

definition count_failure :: "tester \<Rightarrow> tester" where
  "count_failure t = t\<lparr>metrics := (metrics t)\<lparr>failed_events := failed_events (metrics t) + 1\<rparr>\<rparr>"

definition count_rate_limited :: "tester \<Rightarrow> tester" where
  "count_rate_limited t =
     t\<lparr>metrics := (metrics t)\<lparr>rate_limited_requests := rate_limited_requests (metrics t) + 1\<rparr>\<rparr>"

definition wait :: "real \<Rightarrow> tester \<Rightarrow> tester" where
  "wait d t = t\<lparr>waits := waits t @ [d]\<rparr>"

text \<open>
  The clause \<open>except Exception\<close> of \<open>create_single_event\<close>, for an exception raised in the
  \<open>try\<close> block; \<open>rt\<close> is the reading of the clock that the clause takes.
\<close>

definition except_exception :: "int \<Rightarrow> real \<Rightarrow> exn \<Rightarrow> tester \<Rightarrow> call \<times> tester" where
  "except_exception eid rt e t =
     (if e = CancelledError then (Escaped CancelledError, t)
      else (Returned (EventResult eid ''error'' rt), count_failure (record_time rt t)))"

text \<open>
  \<open>create_single_event\<close>. Its whole body stands inside \<open>async with self.semaphore\<close>, the
  call after a 429 included, so the call that retries keeps its slot while the nested
  call asks for another one. The first argument is the number of slots that are free
  when the call asks for admission, the call being the only one that takes or gives
  back slots meanwhile: with none, it waits for good. The slots are given back when the
  call returns or raises. The second argument holds what the world supplies to the
  successive attempts; the recursion has no bound of its own, so a script that ends
  before the call has returned leaves it waiting for a reply.
\<close>

fun create_single_event :: "nat \<Rightarrow> attempt_env list \<Rightarrow> int \<Rightarrow> tester \<Rightarrow> call \<times> tester" where
  "create_single_event 0 script eid t = (AwaitingSlot, t)"
| "create_single_event (Suc slots) [] eid t = (AwaitingReply, t)"
| "create_single_event (Suc slots) (env # rest) eid t =
     (case answer env of
        Raises e \<Rightarrow> except_exception eid (elapsed_exc env) e t
      | Response st hdr body \<Rightarrow>
          (let t1 = record_time (elapsed env) t in
           if st = 200 then
             (case body of
                ReadOk j \<Rightarrow> (Returned (EventResult eid ''success'' (elapsed env)), count_success t1)
              | ReadRaises e \<Rightarrow> except_exception eid (elapsed_exc env) e (count_success t1))
           else if st = 429 then
             (let t2 = count_rate_limited t1 in
              case int_retry_after hdr of
                Inl e \<Rightarrow> except_exception eid (elapsed_exc env) e t2
              | Inr n \<Rightarrow>
                  (case asyncio_sleep_int n (cancelled_asleep env) of
                     Some OverflowError \<Rightarrow> except_exception eid (elapsed_exc env) OverflowError t2
                   | Some e \<Rightarrow> except_exception eid (elapsed_exc env) e (wait (real_of_int n) t2)
                   | None \<Rightarrow> create_single_event slots rest eid (wait (real_of_int n) t2)))
           else
             (case body of
                ReadOk j \<Rightarrow> (Returned (EventResult eid ''failed'' (elapsed env)), count_failure t1)
              | ReadRaises e \<Rightarrow> except_exception eid (elapsed_exc env) e (count_failure t1))))"

text \<open>
  \<open>generate_test_events\<close>: one event for each \<open>i\<close> in \<open>range(count)\<close>; an event is
  identified with its index, its dictionary being opaque to everything below.
\<close>

definition generate_test_events :: "int \<Rightarrow> nat list" where
  "generate_test_events count = [0..<nat count]"

subsection \<open>The batch loop\<close>

datatype py_error = ZeroDivisionError

text \<open>Python's \<open>//\<close> rounds to the floor, as \<open>div\<close> on \<open>int\<close> does, and raises on zero.\<close>

definition total_batches :: "nat \<Rightarrow> int \<Rightarrow> py_error + int" where
  "total_batches n batch_size =
     (if batch_size = 0 then Inl ZeroDivisionError
      else Inr ((int n + batch_size - 1) div batch_size))"

text \<open>A slice \<open>xs[i:j]\<close>: a negative bound counts from the end, and both are clipped.\<close>

definition clip :: "int \<Rightarrow> int \<Rightarrow> int" where
  "clip n i = (if i < 0 then max (n + i) 0 else min i n)"

definition py_slice :: "'a list \<Rightarrow> int \<Rightarrow> int \<Rightarrow> 'a list" where
  "py_slice xs i j =
     (let n = int (length xs); a = clip n i; b = clip n j
      in take (nat (b - a)) (drop (nat a) xs))"

definition batch_events :: "'a list \<Rightarrow> int \<Rightarrow> nat \<Rightarrow> 'a list" where
  "batch_events events batch_size batch_num =
     (let start_idx = int batch_num * batch_size;
          end_idx = min (start_idx + batch_size) (int (length events))
      in py_slice events start_idx end_idx)"

text \<open>
  The tasks of one batch: \<open>create_single_event(event, start_idx + i)\<close> for
  \<open>i, event in enumerate(batch_events)\<close>.
\<close>

definition batch_tasks :: "'a list \<Rightarrow> int \<Rightarrow> nat \<Rightarrow> ('a \<times> int) list" where
  "batch_tasks events batch_size batch_num =
     map (\<lambda>(i, event). (event, int batch_num * batch_size + int i))
       (enumerate 0 (batch_events events batch_size batch_num))"

text \<open>
  What the iterations of \<open>for batch_num in range(total_batches)\<close> work on: the tasks of
  the batch, and whether \<open>batch_num < total_batches - 1\<close>, that is, whether the loop sleeps
  after the batch. Neither depends on what the requests do.
\<close>

definition schedule :: "'a list \<Rightarrow> int \<Rightarrow> int \<Rightarrow> (('a \<times> int) list \<times> bool) list" where
  "schedule events batch_size n_batches =
     map (\<lambda>batch_num. (batch_tasks events batch_size batch_num, int batch_num < n_batches - 1))
       [0..<nat n_batches]"

text \<open>
  \<open>asyncio.gather(*tasks, return_exceptions=True)\<close> over the tasks of a batch: it
  completes when every task has returned or raised, an exception being one more entry
  of the results, and it does not complete while a task stays suspended. The tasks
  overlap in the source. Here they run one after the other, each finding all
  \<open>max_concurrent\<close> slots free, which gives the counters and the samples of every run of
  the source in which the batch completes (up to the order of the samples); where the
  tasks of a batch hold all the slots and ask for more at the same time, the source
  waits for good although each task alone would complete. The script of an event is
  looked up by its identifier.
\<close>

fun gather :: "nat \<Rightarrow> (int \<Rightarrow> attempt_env list) \<Rightarrow> ('a \<times> int) list \<Rightarrow> tester \<Rightarrow> tester option" where
  "gather max_concurrent scripts [] t = Some t"
| "gather max_concurrent scripts ((event, eid) # tasks) t =
     (case create_single_event max_concurrent (scripts eid) eid t of
        (Returned _, t') \<Rightarrow> gather max_concurrent scripts tasks t'
      | (Escaped _, t') \<Rightarrow> gather max_concurrent scripts tasks t'
      | (AwaitingSlot, _) \<Rightarrow> None
      | (AwaitingReply, _) \<Rightarrow> None)"

text \<open>
  The loop over the batches; after a batch that is not the last it calls
  \<open>asyncio.sleep(0.1)\<close>, the argument being the double nearest to one tenth.
\<close>

fun run_batches ::
  "nat \<Rightarrow> (int \<Rightarrow> attempt_env list) \<Rightarrow> (('a \<times> int) list \<times> bool) list \<Rightarrow> tester \<Rightarrow> tester option" where
  "run_batches max_concurrent scripts [] t = Some t"
| "run_batches max_concurrent scripts ((tasks, pause) # batches) t =
     (case gather max_concurrent scripts tasks t of
        None \<Rightarrow> None
      | Some t' \<Rightarrow>
          run_batches max_concurrent scripts batches
            (if pause then wait (to_double (1 / 10)) t' else t'))"

text \<open>
  The final statistics: \<open>statistics.mean\<close> computes the exact mean of the floats and
  rounds it once; \<open>min\<close> and \<open>max\<close> return elements of the list.
\<close>

definition final_metrics :: "tester \<Rightarrow> performance_metrics" where
  "final_metrics t =
     (case response_times t of
        [] \<Rightarrow> metrics t
      | x # xs \<Rightarrow>
          (metrics t)\<lparr>avg_response_time := to_double (sum_list (x # xs) / real (length (x # xs))),
                      min_response_time := fold min xs x,
                      max_response_time := fold max xs x\<rparr>)"

datatype 'a run = Finished 'a | Pending | Raised py_error

definition run_performance_test ::
  "nat \<Rightarrow> (int \<Rightarrow> attempt_env list) \<Rightarrow> int \<Rightarrow> int \<Rightarrow> tester \<Rightarrow> performance_metrics run" where
  "run_performance_test max_concurrent scripts event_count batch_size t =
     (let events = generate_test_events event_count;
          t0 = t\<lparr>metrics := PerformanceMetrics\<lparr>total_events := int (length events)\<rparr>,
                 response_times := []\<rparr>
      in case total_batches (length events) batch_size of
           Inl e \<Rightarrow> Raised e
         | Inr n_batches \<Rightarrow>
             (case run_batches max_concurrent scripts (schedule events batch_size n_batches) t0 of
                None \<Rightarrow> Pending
              | Some t1 \<Rightarrow> Finished (final_metrics t1)))"

text \<open>
  An attempt that is answered by a 429 whose \<open>Retry-After\<close> header reads as \<open>R\<close>, and whose
  sleep is not cut short.
\<close>

definition rate_limited_by :: "int \<Rightarrow> attempt_env \<Rightarrow> bool" where
  "rate_limited_by R env \<longleftrightarrow>
     (\<exists>hdr body. answer env = Response 429 hdr body \<and> int_retry_after hdr = Inr R) \<and>
     \<not> cancelled_asleep env"

text \<open>What nested calls that each met a 429 with \<open>Retry-After: R\<close> have left in the tester.\<close>

definition after_rate_limits :: "int \<Rightarrow> attempt_env list \<Rightarrow> tester \<Rightarrow> tester" where
  "after_rate_limits R envs t =
     t\<lparr>metrics := (metrics t)\<lparr>rate_limited_requests :=
                    rate_limited_requests (metrics t) + int (length envs)\<rparr>,
       response_times := response_times t @ map elapsed envs,
       waits := waits t @ replicate (length envs) (real_of_int R)\<rparr>"

text \<open>
  The samples that one call of \<open>create_single_event\<close> appends to \<open>response_times\<close>, read
  off a call that starts from an empty list.
\<close>

definition fresh_tester :: tester where
  "fresh_tester = \<lparr>metrics = PerformanceMetrics, response_times = [], waits = []\<rparr>"


text \<open>
  The sum of the two terminal counters, and the scripts in which no reading of a body
  raises and nothing cancels the task.
\<close>

definition counted :: "tester \<Rightarrow> int" where
  "counted t = successful_events (metrics t) + failed_events (metrics t)"

fun reads_body :: "reply \<Rightarrow> bool" where
  "reads_body (Raises e) = (e \<noteq> CancelledError)"
| "reads_body (Response st hdr (ReadOk j)) = True"
| "reads_body (Response st hdr (ReadRaises e)) = (st = 429)"

definition undisturbed :: "attempt_env \<Rightarrow> bool" where
  "undisturbed env \<longleftrightarrow> reads_body (answer env) \<and> \<not> cancelled_asleep env"


section \<open>The mock backend\<close>

text \<open>The module-level dictionary \<open>demo_stats\<close>.\<close>

record demo_stats =
  total_requests :: int
  successful_requests :: int
  failed_requests :: int
  events_created :: int

datatype endpoint =
  health_check | initiate_google_auth | get_calendar_status | create_calendar_event
  | get_calendar_events | test_calendar_integration | get_demo_stats | reset_demo_stats

text \<open>
  What a handler does for FastAPI: it returns, raises the \<open>HTTPException\<close> with a status,
  or raises something else.
\<close>

datatype handled = Returned_response | HTTPException int | Crashed exn

definition count_request :: "demo_stats \<Rightarrow> demo_stats" where
  "count_request s = s\<lparr>demo_stats.total_requests := demo_stats.total_requests s + 1\<rparr>"

definition count_successful :: "demo_stats \<Rightarrow> demo_stats" where
  "count_successful s = s\<lparr>demo_stats.successful_requests := demo_stats.successful_requests s + 1\<rparr>"

definition count_failed :: "demo_stats \<Rightarrow> demo_stats" where
  "count_failed s = s\<lparr>demo_stats.failed_requests := demo_stats.failed_requests s + 1\<rparr>"

definition count_created :: "demo_stats \<Rightarrow> demo_stats" where
  "count_created s = s\<lparr>demo_stats.events_created := demo_stats.events_created s + 1\<rparr>"

definition zero_stats :: demo_stats where
  "zero_stats =
     \<lparr>total_requests = 0, successful_requests = 0, failed_requests = 0, events_created = 0\<rparr>"

text \<open>
  The handler of \<open>POST /v1/calendar/events\<close> works in two stretches, with
  \<open>time.sleep(processing_delay)\<close> between them. Before the sleep it counts the request.
  After it, \<open>simulated_failure\<close> being whether \<open>random.random() < 0.05\<close>, it counts a failure
  and raises, or counts a success and an event and builds the response;
  \<open>start_time_parses\<close> says whether \<open>datetime.fromisoformat\<close> accepts the event's
  \<open>start_time\<close>, which is evaluated there, after the counters are written. Every
  statement reads the global \<open>demo_stats\<close> anew, so the second stretch writes to the
  dictionary that is current then.
\<close>

definition create_event_begin :: "demo_stats \<Rightarrow> demo_stats" where
  "create_event_begin s = count_request s"

definition create_event_finish :: "bool \<Rightarrow> bool \<Rightarrow> demo_stats \<Rightarrow> handled \<times> demo_stats" where
  "create_event_finish simulated_failure start_time_parses s =
     (if simulated_failure then (HTTPException 500, count_failed s)
      else
        (let s2 = count_created (count_successful s) in
         if start_time_parses then (Returned_response, s2) else (Crashed ValueError, s2)))"

text \<open>A handler that runs from its first statement to its last with no other in between.\<close>

fun handler :: "endpoint \<Rightarrow> bool \<Rightarrow> bool \<Rightarrow> demo_stats \<Rightarrow> handled \<times> demo_stats" where
  "handler health_check fails ok s = (Returned_response, s)"
| "handler initiate_google_auth fails ok s = (Returned_response, count_successful (count_request s))"
| "handler get_calendar_status fails ok s = (Returned_response, count_successful (count_request s))"
| "handler create_calendar_event fails ok s = create_event_finish fails ok (create_event_begin s)"
| "handler get_calendar_events fails ok s = (Returned_response, count_successful (count_request s))"
| "handler test_calendar_integration fails ok s =
     (Returned_response, count_successful (count_request s))"
| "handler get_demo_stats fails ok s = (Returned_response, s)"
| "handler reset_demo_stats fails ok s = (Returned_response, zero_stats)"

definition balanced :: "demo_stats \<Rightarrow> bool" where
  "balanced s \<longleftrightarrow>
     demo_stats.total_requests s = demo_stats.successful_requests s + demo_stats.failed_requests s"

text \<open>
  The handlers are plain \<open>def\<close> functions, which FastAPI runs on a pool of threads, so
  the sleep of an event creation lets other handlers run. A step of the server is a
  whole handler, or the first stretch of an event creation, or its second stretch.
\<close>

datatype server_step =
  Whole endpoint bool bool | CreateBegins | CreateFinishes bool bool

fun after_step :: "server_step \<Rightarrow> demo_stats \<Rightarrow> demo_stats" where
  "after_step (Whole ep fails ok) s = snd (handler ep fails ok s)"
| "after_step CreateBegins s = create_event_begin s"
| "after_step (CreateFinishes fails ok) s = snd (create_event_finish fails ok s)"

fun serve :: "server_step list \<Rightarrow> demo_stats \<Rightarrow> demo_stats" where
  "serve [] s = s"
| "serve (x # xs) s = serve xs (after_step x s)"

section \<open>Rounding to a double\<close>

lemma round_half_even_int [simp]: "round_half_even (of_int m) = m"
  by (simp add: round_half_even_def)



lemma floor_log2_between:
  assumes "2 powi e \<le> x" and "x < 2 powi (e + 1)"
  shows "\<lfloor>log 2 x\<rfloor> = e"
proof -
  have pos: "0 < x" using assms(1) by (smt (verit) zero_less_power_int)
  have a: "(2::real) powr (real_of_int e) \<le> x"
    using assms(1) by (simp add: powr_real_of_int')
  have "(2::real) powr real_of_int (e + 1) = 2 powi (e + 1)"
    by (rule powr_real_of_int') simp_all
  then have "x < 2 powr (real_of_int (e + 1))"
    using assms(2) by simp
  then have b: "x < 2 powr (real_of_int e + 1)" by (simp add: add.commute)
  from a b show ?thesis using pos by (simp add: floor_log_eq_powr_iff)
qed

lemma to_double_exact:
  assumes "2 ^ 52 \<le> \<bar>m\<bar>" and "\<bar>m\<bar> < 2 ^ 53" and "- 1074 \<le> e"
  shows "to_double (of_int m * 2 powi e) = of_int m * 2 powi e"
proof -
  let ?x = "of_int m * (2::real) powi e"
  have e: "(2::real) powi e > 0" by simp
  have ax: "\<bar>?x\<bar> = of_int \<bar>m\<bar> * 2 powi e" by (simp add: abs_mult)
  have lo: "2 powi (e + 52) \<le> \<bar>?x\<bar>"
  proof -
    have "(2::real) ^ 52 \<le> of_int \<bar>m\<bar>" using assms(1) by (metis of_int_le_iff of_int_numeral of_int_power)
    then have "(2::real) ^ 52 * 2 powi e \<le> of_int \<bar>m\<bar> * 2 powi e" using e by simp
    moreover have "(2::real) powi (e + 52) = 2 ^ 52 * 2 powi e"
      by (simp add: power_int_add)
    ultimately show ?thesis using ax by simp
  qed
  have hi: "\<bar>?x\<bar> < 2 powi (e + 52 + 1)"
  proof -
    have "of_int \<bar>m\<bar> < (2::real) ^ 53" using assms(2) by (metis of_int_less_iff of_int_numeral of_int_power)
    then have "of_int \<bar>m\<bar> * 2 powi e < (2::real) ^ 53 * 2 powi e" using e by simp
    moreover have "(2::real) powi (e + 52 + 1) = 2 ^ 53 * 2 powi e"
      by (simp add: power_int_add)
    ultimately show ?thesis using ax by simp
  qed
  have "\<lfloor>log 2 \<bar>?x\<bar>\<rfloor> = e + 52" using floor_log2_between [OF lo hi] .
  then have u: "ulp_exponent ?x = e" using assms(3) by (simp add: ulp_exponent_def)
  have nz: "?x \<noteq> 0" using assms(1) by auto
  show ?thesis using nz by (simp add: to_double_def u)
qed




text \<open>
  The upper end of the backoff interval is reached: with the largest double below one
  as jitter, \<open>2 ** 0 + jitter\<close> rounds to 2.
\<close>

lemma backoff_rounds_up: "to_double (2 ^ 0 + (1 - 1 / 2 ^ 53)) = 2 ^ 0 + 1"
proof -
  let ?x = "(2::real) ^ 0 + (1 - 1 / 2 ^ 53)"
  have "\<lfloor>log 2 \<bar>?x\<bar>\<rfloor> = 0"
    by (rule floor_log2_between) simp_all
  then have u: "ulp_exponent ?x = - 52" by (simp add: ulp_exponent_def)
  have q: "?x / 2 powi (- 52) = 18014398509481983 / 2"
    by (simp add: power_int_minus)
  have r: "round_half_even (18014398509481983 / 2) = 9007199254740992"
    by (simp add: round_half_even_def Let_def)
  have nz: "?x \<noteq> 0" by simp
  have "to_double ?x = of_int (round_half_even (?x / 2 powi (- 52))) * 2 powi (- 52)"
    using nz by (simp only: to_double_def u if_False)
  also have "\<dots> = 2" by (simp only: q r) (simp add: power_int_minus)
  finally show ?thesis by simp
qed

lemma to_double_one: "to_double 1 = 1"
proof -
  have "to_double (of_int (2 ^ 52) * 2 powi (- 52)) = of_int (2 ^ 52) * 2 powi (- 52)"
    by (rule to_double_exact) simp_all
  moreover have "of_int (2 ^ 52) * 2 powi (- 52) = (1 :: real)"
    by (simp add: power_int_minus)
  ultimately show ?thesis by simp
qed


section \<open>The counters of the mock backend\<close>

lemma handler_deltas:
  assumes "handler ep fails ok s = (r, s')" and "ep \<noteq> reset_demo_stats"
  shows "demo_stats.total_requests s' - demo_stats.total_requests s =
           (demo_stats.successful_requests s' - demo_stats.successful_requests s) +
           (demo_stats.failed_requests s' - demo_stats.failed_requests s)"
    and "demo_stats.successful_requests s' - demo_stats.successful_requests s \<in> {0, 1}"
    and "demo_stats.failed_requests s' - demo_stats.failed_requests s \<in> {0, 1}"
    and "demo_stats.total_requests s' - demo_stats.total_requests s \<in> {0, 1}"
  using assms
  by (cases ep; auto simp: create_event_begin_def create_event_finish_def Let_def
      count_request_def count_successful_def count_failed_def count_created_def
      split: if_splits)+

lemma handler_balanced:
  assumes "handler ep fails ok s = (r, s')" and "balanced s"
  shows "balanced s'"
proof (cases "ep = reset_demo_stats")
  case True
  with assms(1) show ?thesis by (auto simp: balanced_def zero_stats_def)
next
  case False
  from handler_deltas(1) [OF assms(1) False] assms(2) show ?thesis
    by (simp add: balanced_def)
qed

lemma create_event_created:
  "handler create_calendar_event fails ok s = (r, s') \<Longrightarrow>
     demo_stats.events_created s' - demo_stats.events_created s =
       demo_stats.successful_requests s' - demo_stats.successful_requests s"
  by (auto simp: create_event_begin_def create_event_finish_def Let_def count_request_def
      count_successful_def count_failed_def count_created_def split: if_splits)

text \<open>
  C10, as amended: a handler of the mock backend that runs with no other handler in
  between keeps \<open>total_requests = successful_requests + failed_requests\<close>. Unless it is
  the reset, which writes zeros, it adds to \<open>total_requests\<close> exactly what it adds to
  \<open>successful_requests\<close> and \<open>failed_requests\<close> together, each of the three growing by 0 or
  by 1, whether it returns or raises; and the event-creation handler adds to
  \<open>events_created\<close> exactly what it adds to \<open>successful_requests\<close>.
\<close>

theorem backend_counters_balanced:
  assumes "handler ep fails ok s = (r, s')"
  shows "(balanced s \<longrightarrow> balanced s') \<and>
         (ep \<noteq> reset_demo_stats \<longrightarrow>
            demo_stats.total_requests s' - demo_stats.total_requests s =
              (demo_stats.successful_requests s' - demo_stats.successful_requests s) +
              (demo_stats.failed_requests s' - demo_stats.failed_requests s) \<and>
            demo_stats.total_requests s' - demo_stats.total_requests s \<in> {0, 1} \<and>
            demo_stats.successful_requests s' - demo_stats.successful_requests s \<in> {0, 1} \<and>
            demo_stats.failed_requests s' - demo_stats.failed_requests s \<in> {0, 1}) \<and>
         (ep = create_calendar_event \<longrightarrow>
            demo_stats.events_created s' - demo_stats.events_created s =
              demo_stats.successful_requests s' - demo_stats.successful_requests s)"
  using handler_balanced [OF assms] handler_deltas [OF assms]
    create_event_created [of fails ok s r s'] assms
  by auto

theorem backend_counters_balanced_witness:
  "handler create_calendar_event True True
     \<lparr>total_requests = 7, successful_requests = 5, failed_requests = 2, events_created = 3\<rparr>
   = (HTTPException 500,
      \<lparr>total_requests = 8, successful_requests = 5, failed_requests = 3, events_created = 3\<rparr>)
   \<and> balanced \<lparr>total_requests = 7, successful_requests = 5, failed_requests = 2, events_created = 3\<rparr>
   \<and> balanced \<lparr>total_requests = 8, successful_requests = 5, failed_requests = 3, events_created = 3\<rparr>"
proof -
  have h: "handler create_calendar_event True True
     \<lparr>total_requests = 7, successful_requests = 5, failed_requests = 2, events_created = 3\<rparr>
   = (HTTPException 500,
      \<lparr>total_requests = 8, successful_requests = 5, failed_requests = 3, events_created = 3\<rparr>)"
    by (simp add: create_event_begin_def create_event_finish_def count_request_def
        count_failed_def)
  have b: "balanced \<lparr>total_requests = 7, successful_requests = 5, failed_requests = 2, events_created = 3\<rparr>"
    by (simp add: balanced_def)
  from backend_counters_balanced [OF h] b h show ?thesis by simp
qed

text \<open>
  A reset that runs while an event creation sleeps breaks the balance: the creation
  has counted its request in the dictionary that the reset replaces, and counts its
  success in the new one.
\<close>

theorem reset_during_creation_unbalances:
  "balanced zero_stats \<and>
   serve [CreateBegins, Whole reset_demo_stats False True, CreateFinishes False True] zero_stats
     = \<lparr>total_requests = 0, successful_requests = 1, failed_requests = 0, events_created = 1\<rparr>
   \<and> \<not> balanced
        (serve [CreateBegins, Whole reset_demo_stats False True, CreateFinishes False True]
           zero_stats)"
  by (simp add: balanced_def zero_stats_def create_event_begin_def create_event_finish_def
      count_request_def count_successful_def count_created_def)

section \<open>Rate limiting\<close>

lemma quiet_sleep:
  "\<not> (0 < R \<and> int_too_large_for_float R) \<Longrightarrow> asyncio_sleep_int R False = None"
  by (auto simp: asyncio_sleep_int_def)

lemma after_rate_limits_Nil [simp]: "after_rate_limits R [] t = t"
  by (simp add: after_rate_limits_def)

lemma after_rate_limits_Cons:
  "after_rate_limits R envs (wait (real_of_int R) (count_rate_limited (record_time (elapsed env) t)))
     = after_rate_limits R (env # envs) t"
  by (simp add: after_rate_limits_def wait_def count_rate_limited_def record_time_def
      replicate_app_Cons_same)

text \<open>
  C2, in the performance tester: \<open>create_single_event\<close> answers every 429 by sleeping and
  calling itself, with no count of the retries (its comment reads "Retry once after rate
  limit"). Each nested call takes one more slot of the semaphore. When every attempt
  meets a 429 with \<open>Retry-After: R\<close>, the call makes as many attempts as there are slots,
  sleeps \<open>R\<close> after each, and then waits for a slot for good (or for a reply, where the
  script ends first): it never returns, so it records no failure.
\<close>

theorem tester_rate_limit_has_no_ceiling:
  assumes "\<forall>env \<in> set script. rate_limited_by R env"
    and "\<not> (0 < R \<and> int_too_large_for_float R)"
  shows "create_single_event slots script eid t =
           (if slots \<le> length script then AwaitingSlot else AwaitingReply,
            after_rate_limits R (take slots script) t)"
  using assms(1)
proof (induction slots script eid t rule: create_single_event.induct)
  case (1 script eid t)
  show ?case by simp
next
  case (2 slots eid t)
  show ?case by simp
next
  case (3 slots env rest eid t)
  from "3.prems" obtain hdr body
    where a: "answer env = Response 429 hdr body" and h: "int_retry_after hdr = Inr R"
      and nc: "\<not> cancelled_asleep env"
    by (auto simp: rate_limited_by_def)
  have q: "asyncio_sleep_int R (cancelled_asleep env) = None"
    using nc quiet_sleep [OF assms(2)] by simp
  let ?t = "wait (real_of_int R) (count_rate_limited (record_time (elapsed env) t))"
  have step: "create_single_event (Suc slots) (env # rest) eid t =
                create_single_event slots rest eid ?t"
    by (simp add: a h q)
  have ih: "create_single_event slots rest eid ?t =
              (if slots \<le> length rest then AwaitingSlot else AwaitingReply,
               after_rate_limits R (take slots rest) ?t)"
    using "3.IH" [of 429 hdr body "record_time (elapsed env) t"
        "count_rate_limited (record_time (elapsed env) t)" R] a h q "3.prems"
    by simp
  show ?case
    by (simp only: step ih) (simp add: after_rate_limits_Cons)
qed

theorem tester_rate_limit_has_no_ceiling_witness:
  "create_single_event 3 (replicate 5 (timed (Response 429 (IntText 1) (ReadOk [])) 1)) 0
     \<lparr>metrics = PerformanceMetrics, response_times = [], waits = []\<rparr>
   = (AwaitingSlot,
      \<lparr>metrics = PerformanceMetrics\<lparr>rate_limited_requests := 3\<rparr>,
       response_times = [1, 1, 1], waits = [1, 1, 1]\<rparr>)"
proof -
  have h: "\<forall>env \<in> set (replicate 5 (timed (Response 429 (IntText 1) (ReadOk [])) 1)).
             rate_limited_by 1 env"
    by (simp add: rate_limited_by_def timed_def)
  have r: "\<not> (0 < (1::int) \<and> int_too_large_for_float 1)"
    by (simp add: int_too_large_for_float_def)
  show ?thesis
    by (simp only: tester_rate_limit_has_no_ceiling [OF h r])
      (simp add: after_rate_limits_def timed_def PerformanceMetrics_def numeral_eq_Suc)
qed

text \<open>
  The sibling \<open>make_resilient_request\<close> has the ceiling: a request whose every attempt
  meets a 429 with \<open>Retry-After: R\<close> makes \<open>max_retries + 1\<close> attempts, sleeps \<open>R\<close> after each
  of them, counts \<open>max_retries\<close> retries and is then recorded as failed.
\<close>

lemma request_loop_always_429:
  assumes "\<And>k. rate_limited_by R (world k)"
    and "\<not> (0 < R \<and> int_too_large_for_float R)"
  shows "request_loop world mr ks c =
           (Inr None, c\<lparr>total_attempts := total_attempts c + int (length ks),
                     retries_performed :=
                       retries_performed c + int (length (filter (\<lambda>k. int k < mr) ks)),
                     rate_limits_hit := rate_limits_hit c + int (length ks),
                     slept := slept c @ replicate (length ks) (real_of_int R)\<rparr>)"
proof (induction ks arbitrary: c)
  case Nil
  show ?case by simp
next
  case (Cons k ks)
  from assms(1) [of k] obtain hdr body
    where r: "answer (world k) = Response 429 hdr body" and h: "int_retry_after hdr = Inr R"
      and nc: "\<not> cancelled_asleep (world k)"
    by (auto simp: rate_limited_by_def)
  have q: "asyncio_sleep_int R (cancelled_asleep (world k)) = None"
    using nc quiet_sleep [OF assms(2)] by simp
  show ?case
  proof (cases "int k < mr")
    case True
    have a: "attempt_body mr k (world k) c =
               (Next, c\<lparr>total_attempts := total_attempts c + 1,
                         retries_performed := retries_performed c + 1,
                         rate_limits_hit := rate_limits_hit c + 1,
                         slept := slept c @ [real_of_int R]\<rparr>)"
      using True by (simp add: attempt_body_def on_response_def r h q sleep_int_def sleep_def)
    show ?thesis
      using True by (simp add: a Cons.IH replicate_app_Cons_same)
  next
    case False
    have a: "attempt_body mr k (world k) c =
               (Next, c\<lparr>total_attempts := total_attempts c + 1,
                         rate_limits_hit := rate_limits_hit c + 1,
                         slept := slept c @ [real_of_int R]\<rparr>)"
      using False by (simp add: attempt_body_def on_response_def r h q sleep_int_def sleep_def)
    show ?thesis
      using False by (simp add: a Cons.IH replicate_app_Cons_same)
  qed
qed

lemma retries_in_range: "0 \<le> mr \<Longrightarrow> length (filter (\<lambda>k. int k < mr) [0..<nat (mr + 1)]) = nat mr"
proof -
  assume m: "0 \<le> mr"
  have "[0..<nat (mr + 1)] = [0..<nat mr] @ [nat mr]"
    using m by (simp add: nat_add_distrib)
  moreover have "filter (\<lambda>k. int k < mr) [0..<nat mr] = [0..<nat mr]"
    by (rule filter_True) auto
  ultimately have "filter (\<lambda>k. int k < mr) [0..<nat (mr + 1)] = [0..<nat mr]"
    using m by simp
  then show ?thesis by simp
qed

lemma resilient_always_rate_limited:
  assumes "\<And>k. rate_limited_by R (world k)"
    and "\<not> (0 < R \<and> int_too_large_for_float R)" and "0 \<le> max_retries"
  shows "make_resilient_request world max_retries c =
           (Inr (ErrorDict (max_retries + 1) None),
            c\<lparr>total_attempts := total_attempts c + (max_retries + 1),
              resilient.failed_requests := resilient.failed_requests c + 1,
              retries_performed := retries_performed c + max_retries,
              rate_limits_hit := rate_limits_hit c + (max_retries + 1),
              last_exception := None,
              slept := slept c @ replicate (nat (max_retries + 1)) (real_of_int R)\<rparr>)"
  using assms(3)
  by (simp add: make_resilient_request_def request_loop_always_429 [OF assms(1,2)]
      retries_in_range)


section \<open>Client errors\<close>

lemma range_from_zero: "0 \<le> mr \<Longrightarrow> [0..<nat (mr + 1)] = 0 # [1..<nat (mr + 1)]"
  by (simp add: upt_conv_Cons)

text \<open>
  C3, as amended: a first reply with a 4xx status other than 429 whose body is read
  ends the request as failed after that one attempt, with no retry and no sleep, in
  \<open>make_resilient_request\<close> for every such status except 401, and in the tester's
  \<open>create_single_event\<close>, once admitted, for every such status, 401 included.
\<close>

theorem client_error_not_retried:
  assumes "400 \<le> st" and "st < 500" and "st \<noteq> 429" and "0 \<le> max_retries"
    and "answer (world 0) = Response st hdr (ReadOk b)"
  shows "(st \<noteq> 401 \<longrightarrow>
            make_resilient_request world max_retries c =
              (Inr (ErrorDict (max_retries + 1) None),
               c\<lparr>total_attempts := total_attempts c + 1,
                 resilient.failed_requests := resilient.failed_requests c + 1,
                 last_exception := None\<rparr>)) \<and>
         create_single_event (Suc slots) (world 0 # rest) eid t =
           (Returned (EventResult eid ''failed'' (elapsed (world 0))),
            count_failure (record_time (elapsed (world 0)) t))"
  using assms
  by (simp add: make_resilient_request_def range_from_zero attempt_body_def on_response_def)

theorem client_error_not_retried_witness:
  "make_resilient_request (\<lambda>k. timed (Response 404 Absent (ReadOk [])) 1) 3
     \<lparr>total_attempts = 0, resilient.successful_requests = 0, resilient.failed_requests = 0,
      retries_performed = 0, rate_limits_hit = 0, network_errors = 0, timeout_errors = 0,
      last_exception = None, slept = []\<rparr>
   = (Inr (ErrorDict 4 None),
      \<lparr>total_attempts = 1, resilient.successful_requests = 0, resilient.failed_requests = 1,
       retries_performed = 0, rate_limits_hit = 0, network_errors = 0, timeout_errors = 0,
       last_exception = None, slept = []\<rparr>)
   \<and> create_single_event 1 [timed (Response 404 Absent (ReadOk [])) 1] 0
         \<lparr>metrics = PerformanceMetrics, response_times = [], waits = []\<rparr>
       = (Returned (EventResult 0 ''failed'' 1),
          \<lparr>metrics = PerformanceMetrics\<lparr>failed_events := 1\<rparr>, response_times = [1], waits = []\<rparr>)"
  using client_error_not_retried [of 404 3 "\<lambda>k. timed (Response 404 Absent (ReadOk [])) 1"
      Absent "[]"
      "\<lparr>total_attempts = 0, resilient.successful_requests = 0, resilient.failed_requests = 0,
      retries_performed = 0, rate_limits_hit = 0, network_errors = 0, timeout_errors = 0,
      last_exception = None, slept = []\<rparr>" 0 "[]" 0
      "\<lparr>metrics = PerformanceMetrics, response_times = [], waits = []\<rparr>"]
  by (simp add: timed_def count_failure_def record_time_def PerformanceMetrics_def)

text \<open>
  A 401 is not such a status in \<open>make_resilient_request\<close>: it has a branch of its own,
  which sleeps one second and tries again while attempts remain.
\<close>

theorem unauthorized_is_retried:
  "make_resilient_request
     (\<lambda>k. if k = 0 then plain (Response 401 Absent (ReadOk []))
           else plain (Response 200 Absent (ReadOk ''{}'')))
     3
     \<lparr>total_attempts = 0, resilient.successful_requests = 0, resilient.failed_requests = 0,
      retries_performed = 0, rate_limits_hit = 0, network_errors = 0, timeout_errors = 0,
      last_exception = None, slept = []\<rparr>
   = (Inr (Parsed ''{}''),
      \<lparr>total_attempts = 2, resilient.successful_requests = 1, resilient.failed_requests = 0,
       retries_performed = 1, rate_limits_hit = 0, network_errors = 0, timeout_errors = 0,
       last_exception = None, slept = [1]\<rparr>)"
  by (simp add: make_resilient_request_def upt_conv_Cons attempt_body_def on_response_def
      sleep_def plain_def in_try_def sleep_int_def asyncio_sleep_int_def
      int_too_large_for_float_def)

section \<open>Batches\<close>

lemma py_slice_nonneg:
  "0 \<le> i \<Longrightarrow> 0 \<le> j \<Longrightarrow> py_slice xs i j = take (nat j - nat i) (drop (nat i) xs)"
proof -
  assume i: "0 \<le> i" and j: "0 \<le> j"
  let ?n = "int (length xs)"
  have "py_slice xs i j = take (nat (min j ?n - min i ?n)) (drop (nat (min i ?n)) xs)"
    using i j by (simp add: py_slice_def clip_def Let_def)
  also have "\<dots> = take (nat j - nat i) (drop (nat i) xs)"
  proof (cases "i \<le> ?n")
    case True
    then have m: "min i ?n = i" by simp
    show ?thesis
    proof (cases "j \<le> ?n")
      case True
      then show ?thesis using m i j by (simp add: nat_diff_distrib')
    next
      case False
      then have "min j ?n = ?n" by simp
      moreover have "length xs - nat i \<le> nat j - nat i" using False i by linarith
      ultimately show ?thesis using m i \<open>i \<le> ?n\<close>
        by (simp add: nat_diff_distrib')
    qed
  next
    case False
    then have "drop (nat i) xs = []" "drop (nat (min i ?n)) xs = []" by simp_all
    then show ?thesis by simp
  qed
  finally show ?thesis .
qed

lemma batch_events_take_drop:
  assumes "0 < b"
  shows "batch_events events (int b) k = take b (drop (k * b) events)"
proof -
  let ?n = "length events"
  have "batch_events events (int b) k =
          py_slice events (int (k * b)) (min (int (k * b) + int b) (int ?n))"
    by (simp add: batch_events_def Let_def)
  also have "\<dots> = take (nat (min (int (k * b) + int b) (int ?n)) - nat (int (k * b)))
                      (drop (nat (int (k * b))) events)"
    by (rule py_slice_nonneg) simp_all
  also have "\<dots> = take (nat (min (int (k * b) + int b) (int ?n)) - k * b) (drop (k * b) events)"
    by (simp only: nat_int)
  also have "nat (min (int (k * b) + int b) (int ?n)) = min (k * b + b) ?n"
  proof -
    have "int (k * b) + int b = int (k * b + b)" by (simp only: of_nat_add)
    then have "min (int (k * b) + int b) (int ?n) = int (min (k * b + b) ?n)"
      by (simp only: of_nat_min)
    then show ?thesis by (simp only: nat_int)
  qed
  also have "take (min (k * b + b) ?n - k * b) (drop (k * b) events) = take b (drop (k * b) events)"
  proof (cases "k * b + b \<le> ?n")
    case True
    then show ?thesis by simp
  next
    case False
    then have "length (drop (k * b) events) \<le> min (k * b + b) ?n - k * b" by simp
    moreover have "length (drop (k * b) events) \<le> b" using False by simp
    ultimately show ?thesis by simp
  qed
  finally show ?thesis .
qed

lemma concat_batches:
  "concat (map (\<lambda>k. take b (drop (k * b) xs)) [0..<m]) = take (m * b) xs"
proof (induction m)
  case 0
  show ?case by simp
next
  case (Suc m)
  have "take (m * b + b) xs = take (m * b) xs @ take b (drop (m * b) xs)"
    by (rule take_add)
  with Suc show ?case by (simp add: add.commute)
qed

lemma batches_cover:
  assumes "0 < b"
  shows "length xs \<le> ((length xs + b - 1) div b) * b"
proof -
  let ?n = "length xs"
  have "?n + b - 1 = ((?n + b - 1) div b) * b + (?n + b - 1) mod b" by simp
  moreover have "(?n + b - 1) mod b < b" using assms by simp
  ultimately show ?thesis by linarith
qed



lemma total_batches_pos:
  "0 < b \<Longrightarrow> total_batches n (int b) = Inr (int ((n + b - 1) div b))"
proof -
  assume b: "0 < b"
  have "int n + int b - 1 = int (n + b - 1)" using b by linarith
  then show ?thesis using b by (simp add: total_batches_def zdiv_int)
qed

lemma batch_tasks_indexed:
  assumes "0 < b"
  shows "batch_tasks events (int b) k =
           take b (drop (k * b) (zip events (map int [0..<length events])))"
proof -
  let ?batch = "take b (drop (k * b) events)"
  let ?ixd = "zip events (map int [0..<length events])"
  have l: "length (batch_tasks events (int b) k) = length (take b (drop (k * b) ?ixd))"
    by (simp add: batch_tasks_def batch_events_take_drop [OF assms])
  have "\<And>i. i < length (batch_tasks events (int b) k) \<Longrightarrow>
          batch_tasks events (int b) k ! i = take b (drop (k * b) ?ixd) ! i"
  proof -
    fix i
    assume "i < length (batch_tasks events (int b) k)"
    then have i: "i < length ?batch"
      by (simp add: batch_tasks_def batch_events_take_drop [OF assms])
    then have ib: "i < b" and ki: "k * b + i < length events" by auto
    have "batch_tasks events (int b) k ! i = (?batch ! i, int k * int b + int i)"
      using i by (simp add: batch_tasks_def batch_events_take_drop [OF assms] nth_enumerate_eq)
    also have "?batch ! i = events ! (k * b + i)" using ib ki by simp
    also have "(events ! (k * b + i), int k * int b + int i) = ?ixd ! (k * b + i)"
      using ki by simp
    also have "\<dots> = take b (drop (k * b) ?ixd) ! i" using ib ki by simp
    finally show "batch_tasks events (int b) k ! i = take b (drop (k * b) ?ixd) ! i" .
  qed
  with l show ?thesis by (simp only: list_eq_iff_nth_eq) blast
qed

lemma schedule_tasks:
  assumes "0 < b"
  shows "map fst (schedule events (int b) (int m)) =
           map (\<lambda>k. take b (drop (k * b) (zip events (map int [0..<length events])))) [0..<m]"
  by (simp add: schedule_def batch_tasks_indexed [OF assms] comp_def)

lemma schedule_in_order:
  assumes "0 < b"
  shows "concat (map fst (schedule events (int b) (int ((length events + b - 1) div b))))
           = zip events (map int [0..<length events])"
proof -
  let ?n = "length events"
  let ?nb = "(?n + b - 1) div b"
  let ?ixd = "zip events (map int [0..<?n])"
  let ?s = "schedule events (int b) (int ?nb)"
  have "concat (map fst ?s) = take (?nb * b) ?ixd"
    by (simp only: schedule_tasks [OF assms] concat_batches)
  moreover have "length ?ixd \<le> ?nb * b"
    using batches_cover [OF assms, of events] by simp
  ultimately show ?thesis by simp
qed




section \<open>What a call leaves in the tester\<close>







text \<open>
  Where no reading of a body raises and nothing cancels the task, a call that returns
  has counted its item once, as a success or as a failure.
\<close>

lemma call_counted:
  assumes "\<forall>env \<in> set script. undisturbed env"
    and "create_single_event slots script eid t = (out, t')"
  shows "(\<forall>e. out \<noteq> Escaped e) \<and> (\<forall>r. out = Returned r \<longrightarrow> counted t' = counted t + 1)"
  using assms
proof (induction slots script eid t arbitrary: out t' rule: create_single_event.induct)
  case (1 script eid t)
  then show ?case by auto
next
  case (2 slots eid t)
  then show ?case by auto
next
  case (3 slots env rest eid t)
  from "3.prems"(1) have u: "reads_body (answer env)" and nc: "\<not> cancelled_asleep env"
    and rest: "\<forall>env \<in> set rest. undisturbed env"
    by (simp_all add: undisturbed_def)
  show ?case
  proof (cases "answer env")
    case (Raises e)
    with u have "e \<noteq> CancelledError" by simp
    with Raises "3.prems"(2) show ?thesis
      by (auto simp: except_exception_def counted_def count_failure_def record_time_def)
  next
    case (Response st hdr body)
    consider "st = 200" | "st \<noteq> 200" "st = 429" | "st \<noteq> 200" "st \<noteq> 429" by blast
    then show ?thesis
    proof cases
      case 1
      with Response u obtain j where "body = ReadOk j" by (cases body) auto
      with 1 Response "3.prems"(2) show ?thesis
        by (auto simp: counted_def count_success_def record_time_def)
    next
      case 2
      show ?thesis
      proof (cases "int_retry_after hdr")
        case (Inl e)
        then have "e = ValueError" by (cases hdr) auto
        with 2 Response Inl "3.prems"(2) show ?thesis
          by (auto simp: except_exception_def counted_def count_failure_def record_time_def
              count_rate_limited_def)
      next
        case (Inr d)
        show ?thesis
        proof (cases "asyncio_sleep_int d (cancelled_asleep env)")
          case None
          let ?t1 = "record_time (elapsed env) t"
          let ?t2 = "count_rate_limited ?t1"
          let ?t3 = "wait (real_of_int d) ?t2"
          from 2 Response Inr None "3.prems"(2)
          have c: "create_single_event slots rest eid ?t3 = (out, t')" by simp
          have "counted ?t3 = counted t"
            by (simp add: counted_def wait_def count_rate_limited_def record_time_def)
          with "3.IH" [OF Response refl _ _ refl Inr None rest c] 2 show ?thesis by simp
        next
          case (Some e)
          with nc have "e = OverflowError" by (auto simp: asyncio_sleep_int_def split: if_splits)
          with 2 Response Inr Some "3.prems"(2) show ?thesis
            by (auto simp: except_exception_def counted_def count_failure_def record_time_def
                count_rate_limited_def)
        qed
      qed
    next
      case 3
      with Response u obtain j where "body = ReadOk j" by (cases body) auto
      with 3 Response "3.prems"(2) show ?thesis
        by (auto simp: counted_def count_failure_def record_time_def)
    qed
  qed
qed

lemma gather_counted:
  assumes "\<forall>eid. \<forall>env \<in> set (scripts eid). undisturbed env"
  shows "gather N scripts tasks t = Some t' \<Longrightarrow> counted t' = counted t + int (length tasks)"
proof (induction tasks arbitrary: t)
  case Nil
  then show ?case by simp
next
  case (Cons task tasks)
  obtain ev eid where task: "task = (ev, eid)" by (cases task)
  obtain out t1 where c: "create_single_event N (scripts eid) eid t = (out, t1)"
    by (cases "create_single_event N (scripts eid) eid t")
  from assms have "\<forall>env \<in> set (scripts eid). undisturbed env" by blast
  from call_counted [OF this c] have ne: "\<And>e. out \<noteq> Escaped e"
    and one: "\<And>r. out = Returned r \<Longrightarrow> counted t1 = counted t + 1"
    by blast+
  from Cons.prems task c ne obtain r where r: "out = Returned r"
    and g: "gather N scripts tasks t1 = Some t'"
    by (cases out) auto
  from Cons.IH [OF g] one [OF r] show ?case by simp
qed

lemma run_batches_counted:
  assumes "\<forall>eid. \<forall>env \<in> set (scripts eid). undisturbed env"
  shows "run_batches N scripts batches t = Some t' \<Longrightarrow>
           counted t' = counted t + int (length (concat (map fst batches)))"
proof (induction batches arbitrary: t)
  case Nil
  then show ?case by simp
next
  case (Cons batch batches)
  obtain tasks pause where batch: "batch = (tasks, pause)" by (cases batch)
  from Cons.prems batch obtain t1 where g: "gather N scripts tasks t = Some t1"
    and r: "run_batches N scripts batches (if pause then wait (to_double (1 / 10)) t1 else t1)
              = Some t'"
    by (auto split: option.splits)
  have "counted (if pause then wait (to_double (1 / 10)) t1 else t1) = counted t1"
    by (simp add: wait_def counted_def)
  with Cons.IH [OF r] gather_counted [OF assms g] batch show ?case by simp
qed

lemma except_exception_total:
  "total_events (metrics (snd (except_exception eid rt e t))) = total_events (metrics t)"
  by (simp add: except_exception_def count_failure_def record_time_def)

lemma call_total:
  "total_events (metrics (snd (create_single_event slots script eid t))) = total_events (metrics t)"
proof (induction slots script eid t rule: create_single_event.induct)
  case (1 script eid t)
  show ?case by simp
next
  case (2 slots eid t)
  show ?case by simp
next
  case (3 slots env rest eid t)
  show ?case
  proof (cases "answer env")
    case (Raises e)
    then show ?thesis
      by (simp add: except_exception_total)
  next
    case (Response st hdr body)
    consider "st = 200" | "st \<noteq> 200" "st = 429" | "st \<noteq> 200" "st \<noteq> 429" by blast
    then show ?thesis
    proof cases
      case 1
      with Response show ?thesis
        by (cases body)
          (simp_all add: except_exception_total count_success_def record_time_def)
    next
      case 2
      show ?thesis
      proof (cases "int_retry_after hdr")
        case (Inl e)
        with 2 Response show ?thesis
          by (simp add: except_exception_total count_rate_limited_def
              record_time_def)
      next
        case (Inr d)
        show ?thesis
        proof (cases "asyncio_sleep_int d (cancelled_asleep env)")
          case None
          with "3.IH" [OF Response refl _ _ refl Inr None] 2 Response Inr show ?thesis
            by (simp add: count_rate_limited_def record_time_def wait_def)
        next
          case (Some e)
          with 2 Response Inr show ?thesis
            by (cases e)
              (simp_all add: except_exception_total count_rate_limited_def
                record_time_def wait_def)
        qed
      qed
    next
      case 3
      with Response show ?thesis
        by (cases body)
          (simp_all add: except_exception_total count_failure_def record_time_def)
    qed
  qed
qed

lemma gather_total:
  "gather N scripts tasks t = Some t' \<Longrightarrow> total_events (metrics t') = total_events (metrics t)"
proof (induction tasks arbitrary: t)
  case Nil
  then show ?case by simp
next
  case (Cons task tasks)
  obtain ev eid where task: "task = (ev, eid)" by (cases task)
  obtain out t1 where c: "create_single_event N (scripts eid) eid t = (out, t1)"
    by (cases "create_single_event N (scripts eid) eid t")
  have t1: "total_events (metrics t1) = total_events (metrics t)"
    using call_total [of N "scripts eid" eid t] c by simp
  from Cons.prems task c have "gather N scripts tasks t1 = Some t'"
    by (cases out) simp_all
  from Cons.IH [OF this] t1 show ?case by simp
qed

lemma run_batches_total:
  "run_batches N scripts batches t = Some t' \<Longrightarrow>
     total_events (metrics t') = total_events (metrics t)"
proof (induction batches arbitrary: t)
  case Nil
  then show ?case by simp
next
  case (Cons batch batches)
  obtain tasks pause where batch: "batch = (tasks, pause)" by (cases batch)
  from Cons.prems batch obtain t1 where g: "gather N scripts tasks t = Some t1"
    and r: "run_batches N scripts batches (if pause then wait (to_double (1 / 10)) t1 else t1)
              = Some t'"
    by (auto split: option.splits)
  have "total_events (metrics (if pause then wait (to_double (1 / 10)) t1 else t1))
          = total_events (metrics t1)"
    by (simp add: wait_def)
  with Cons.IH [OF r] gather_total [OF g] show ?case by simp
qed

section \<open>The final metrics of a run\<close>

lemma final_metrics_counters:
  "total_events (final_metrics t) = total_events (metrics t)"
  "successful_events (final_metrics t) = successful_events (metrics t)"
  "failed_events (final_metrics t) = failed_events (metrics t)"
  by (simp_all add: final_metrics_def split: list.splits)



lemma run_finished:
  assumes "0 < b" and "run_performance_test N scripts (int n) (int b) t = Finished m"
  shows "\<exists>t1. run_batches N scripts
                (schedule [0..<n] (int b) (int ((n + b - 1) div b)))
                (t\<lparr>metrics := PerformanceMetrics\<lparr>total_events := int n\<rparr>, response_times := []\<rparr>)
              = Some t1 \<and> m = final_metrics t1"
proof -
  have tb: "total_batches (length [0..<n]) (int b) = Inr (int ((length [0..<n] + b - 1) div b))"
    using assms(1) by (rule total_batches_pos)
  from assms(2) show ?thesis
    using tb by (auto simp: run_performance_test_def generate_test_events_def Let_def
        split: option.splits)
qed


text \<open>
  Where no reading of a body raises and nothing cancels a task, a run that finishes has
  counted every item once, as a success or as a failure.
\<close>

lemma items_counted_once:
  assumes "0 < b" and "\<forall>eid. \<forall>env \<in> set (scripts eid). undisturbed env"
    and "run_performance_test N scripts (int n) (int b) t = Finished m"
  shows "total_events m = successful_events m + failed_events m"
proof -
  let ?t0 = "t\<lparr>metrics := PerformanceMetrics\<lparr>total_events := int n\<rparr>, response_times := []\<rparr>"
  let ?s = "schedule [0..<n] (int b) (int ((n + b - 1) div b))"
  from run_finished [OF assms(1,3)] obtain t1
    where r: "run_batches N scripts ?s ?t0 = Some t1" and m: "m = final_metrics t1"
    by blast
  have c: "concat (map fst ?s) = zip [0..<n] (map int [0..<n])"
    using schedule_in_order [OF assms(1), of "[0..<n]"] by simp
  have "counted t1 = counted ?t0 + int (length (concat (map fst ?s)))"
    using run_batches_counted [OF assms(2) r] .
  then have "counted t1 = int n"
    by (simp only: c) (simp add: counted_def PerformanceMetrics_def)
  moreover have "total_events (metrics t1) = int n"
    using run_batches_total [OF r] by (simp add: PerformanceMetrics_def)
  ultimately show ?thesis by (simp add: m final_metrics_counters counted_def)
qed


text \<open>The third equation of \<open>create_single_event\<close>, for a number of slots written as a numeral.\<close>

lemma create_single_event_admitted:
  "0 < slots \<Longrightarrow>
     create_single_event slots (env # rest) eid t =
       create_single_event (Suc (slots - 1)) (env # rest) eid t"
  by simp

text \<open>
  C4: an event whose POST is answered by a 200 with a body that \<open>response.json()\<close>
  cannot parse is counted twice. \<open>successful_events\<close> is incremented before the body is
  read, the \<open>ValueError\<close> of the parser is caught by \<open>except Exception\<close>, and the clause
  increments \<open>failed_events\<close>: a run of one event ends with one success and one failure.
\<close>

theorem unreadable_success_counted_twice:
  "run_performance_test 10
     (\<lambda>eid. [timed (Response 200 Absent (ReadRaises ValueError)) 1]) 1 20 fresh_tester
   = Finished \<lparr>total_events = 1, successful_events = 1, failed_events = 1,
               avg_response_time = 1, min_response_time = 1, max_response_time = 1,
               rate_limited_requests = 0\<rparr>"
  by (simp add: run_performance_test_def generate_test_events_def total_batches_def
      schedule_def batch_tasks_def batch_events_def py_slice_def clip_def Let_def timed_def
      fresh_tester_def PerformanceMetrics_def except_exception_def count_success_def
      count_failure_def record_time_def final_metrics_def to_double_one
      create_single_event_admitted [of 10] del: Suc_numeral)

section \<open>Latency statistics\<close>








section \<open>Backoff\<close>









section \<open>The Retry-After header\<close>




section \<open>What make_resilient_request hands to its caller\<close>

lemma retry_with_backoff_failed:
  "retry_with_backoff mr k env c = (r, c') \<Longrightarrow>
     resilient.failed_requests c' = resilient.failed_requests c"
  by (auto simp: retry_with_backoff_def sleep_def Let_def split: if_splits sum.splits)

lemma except_clauses_failed:
  "except_clauses mr k env e c = (ctl, c') \<Longrightarrow>
     resilient.failed_requests c' = resilient.failed_requests c"
  by (cases e)
    (auto simp: in_handler_def split: prod.splits option.splits dest!: retry_with_backoff_failed)

lemma sleep_int_failed:
  "sleep_int n env c = (r, c') \<Longrightarrow> resilient.failed_requests c' = resilient.failed_requests c"
  by (auto simp: sleep_int_def sleep_def split: option.splits exn.splits)

lemma in_try_failed:
  "in_try mr k env (r, c1) ctl0 = (ctl, c') \<Longrightarrow>
     resilient.failed_requests c' = resilient.failed_requests c1"
  by (auto simp: in_try_def split: option.splits dest!: except_clauses_failed)

lemma on_response_failed:
  assumes "on_response mr k env st h b c = (ctl, c')"
  shows "resilient.failed_requests c' = resilient.failed_requests c"
proof -
  consider "st = 200" | "st \<noteq> 200" "st = 429" | "st \<noteq> 200" "st \<noteq> 429" "st = 401"
    | "st \<noteq> 200" "st \<noteq> 429" "st \<noteq> 401" "500 \<le> st"
    | "st \<noteq> 200" "st \<noteq> 429" "st \<noteq> 401" "\<not> 500 \<le> st"
    by blast
  then show ?thesis
  proof cases
    case 1
    with assms show ?thesis
      by (auto simp: on_response_def Let_def split: body_read.splits dest!: except_clauses_failed)
  next
    case 2
    with assms show ?thesis
      by (auto simp: on_response_def Let_def split: sum.splits prod.splits option.splits if_splits
          dest!: except_clauses_failed sleep_int_failed)
  next
    case 3
    obtain r c1 where s: "sleep_int 1 env (c\<lparr>retries_performed := retries_performed c + 1\<rparr>) = (r, c1)"
      by (cases "sleep_int 1 env (c\<lparr>retries_performed := retries_performed c + 1\<rparr>)")
    from 3 assms s show ?thesis
      using sleep_int_failed [OF s] in_try_failed [of mr k env r c1 Next ctl c']
      by (auto simp: on_response_def split: if_splits)
  next
    case 4
    obtain r c1 where s: "retry_with_backoff mr k env c = (r, c1)"
      by (cases "retry_with_backoff mr k env c")
    from 4 assms s show ?thesis
      using retry_with_backoff_failed [OF s] in_try_failed [of mr k env r c1 Next ctl c']
      by (auto simp: on_response_def split: body_read.splits dest!: except_clauses_failed)
  next
    case 5
    with assms show ?thesis
      by (auto simp: on_response_def split: body_read.splits dest!: except_clauses_failed)
  qed
qed

lemma attempt_body_failed:
  "attempt_body mr k env c = (ctl, c') \<Longrightarrow>
     resilient.failed_requests c' = resilient.failed_requests c"
  by (auto simp: attempt_body_def Let_def split: reply.splits
      dest!: except_clauses_failed on_response_failed)

lemma request_loop_failed:
  "request_loop world mr ks c = (r, c') \<Longrightarrow>
     resilient.failed_requests c' = resilient.failed_requests c"
proof (induction ks arbitrary: c)
  case Nil
  then show ?case by simp
next
  case (Cons k ks)
  obtain ctl c1 where a: "attempt_body mr k (world k) c = (ctl, c1)"
    by (cases "attempt_body mr k (world k) c")
  have f: "resilient.failed_requests c1 = resilient.failed_requests c"
    using a by (rule attempt_body_failed)
  show ?case
  proof (cases ctl)
    case Next
    with Cons.prems a have "request_loop world mr ks c1 = (r, c')" by simp
    from Cons.IH [OF this] f show ?thesis by simp
  qed (use Cons.prems a f in auto)
qed

text \<open>Only a 200 whose body is read makes an iteration return.\<close>

lemma in_handler_no_return: "fst (in_handler p) \<noteq> Return x"
  by (cases p) (auto simp: in_handler_def split: option.splits)

lemma except_clauses_no_return: "fst (except_clauses mr k env e c) \<noteq> Return x"
  by (cases e) (simp_all add: in_handler_no_return)

lemma in_try_no_return: "ctl \<noteq> Return x \<Longrightarrow> fst (in_try mr k env p ctl) \<noteq> Return x"
  by (cases p) (auto simp: in_try_def except_clauses_no_return split: option.splits)

lemma attempt_body_return:
  assumes "attempt_body mr k env c = (Return x, c')"
  shows "\<exists>h. answer env = Response 200 h (ReadOk x)"
proof (cases "answer env")
  case (Raises e)
  with assms except_clauses_no_return [of mr k env e _ x] show ?thesis
    by (auto simp: attempt_body_def Let_def dest: arg_cong [where f = fst])
next
  case (Response st h b)
  have nr: "\<And>e c0. except_clauses mr k env e c0 \<noteq> (Return x, c')"
    using except_clauses_no_return [of mr k env _ _ x] by (metis fst_conv)
  have nt: "\<And>p. in_try mr k env p Next \<noteq> (Return x, c')"
    using in_try_no_return [of Next x mr k env] by (metis control.distinct(1) fst_conv)
  from assms Response show ?thesis
    by (auto simp: attempt_body_def on_response_def Let_def nr nt
        split: if_splits body_read.splits sum.splits prod.splits option.splits)
qed

lemma request_loop_some:
  "request_loop world mr ks c = (Inr (Some x), c') \<Longrightarrow>
     \<exists>k \<in> set ks. \<exists>h. answer (world k) = Response 200 h (ReadOk x)"
proof (induction ks arbitrary: c)
  case Nil
  then show ?case by simp
next
  case (Cons k ks)
  obtain ctl c1 where a: "attempt_body mr k (world k) c = (ctl, c1)"
    by (cases "attempt_body mr k (world k) c")
  show ?case
  proof (cases ctl)
    case (Return j)
    with Cons.prems a have "j = x" by simp
    with a Return attempt_body_return show ?thesis by fastforce
  next
    case Next
    with Cons.prems a have "request_loop world mr ks c1 = (Inr (Some x), c')" by simp
    from Cons.IH [OF this] show ?thesis by auto
  qed (use Cons.prems a in auto)
qed

text \<open>
  Without cancellation, and with the backoff computed for attempts below 1024 only, no
  iteration raises.
\<close>

lemma retry_with_backoff_quiet:
  "\<not> cancelled_asleep env \<Longrightarrow> (int k < mr \<longrightarrow> k < 1024) \<Longrightarrow>
     fst (retry_with_backoff mr k env c) = None"
  by (auto simp: retry_with_backoff_def backoff_time_def asyncio_sleep_float_def Let_def)

lemma except_clauses_no_raise:
  assumes "\<not> cancelled_asleep env" and "int k < mr \<longrightarrow> k < 1024" and "e \<noteq> CancelledError"
  shows "fst (except_clauses mr k env e c) \<noteq> Raise x"
proof -
  have "\<And>c0. fst (in_handler (retry_with_backoff mr k env c0)) = Next"
    using retry_with_backoff_quiet [OF assms(1,2)]
    by (simp add: in_handler_def split: prod.splits option.splits) (metis fst_conv option.distinct(1))
  then show ?thesis using assms(3) by (cases e) simp_all
qed

lemma sleep_int_raises:
  "\<not> cancelled_asleep env \<Longrightarrow> sleep_int n env c = (Some e, c') \<Longrightarrow> e = OverflowError"
  by (auto simp: sleep_int_def asyncio_sleep_int_def split: if_splits)

lemma sleep_int_not_cancelled:
  "\<not> cancelled_asleep env \<Longrightarrow> fst (sleep_int n env c) \<noteq> Some CancelledError"
  by (auto simp: sleep_int_def asyncio_sleep_int_def split: if_splits)

lemma in_try_no_raise:
  assumes "\<not> cancelled_asleep env" and "int k < mr \<longrightarrow> k < 1024"
    and "fst p \<noteq> Some CancelledError" and "ctl \<noteq> Raise x"
  shows "fst (in_try mr k env p ctl) \<noteq> Raise x"
proof -
  obtain r c1 where p: "p = (r, c1)" by (cases p)
  show ?thesis
  proof (cases r)
    case None
    with p assms(4) show ?thesis by (simp add: in_try_def)
  next
    case (Some e)
    with p assms(3) have "e \<noteq> CancelledError" by simp
    from except_clauses_no_raise [OF assms(1,2) this] p Some show ?thesis
      by (simp add: in_try_def)
  qed
qed

lemma on_response_no_raise:
  assumes "\<not> cancelled_asleep env" and "int k < mr \<longrightarrow> k < 1024"
    and "\<not> cancels (Response st h b)"
  shows "fst (on_response mr k env st h b c) \<noteq> Raise x"
proof -
  have ex: "\<And>e c0. e \<noteq> CancelledError \<Longrightarrow> fst (except_clauses mr k env e c0) \<noteq> Raise x"
    using except_clauses_no_raise [OF assms(1,2)] by blast
  have body: "\<And>e. b = ReadRaises e \<Longrightarrow> e \<noteq> CancelledError"
    using assms(3) by auto
  consider "st = 200" | "st \<noteq> 200" "st = 429" | "st \<noteq> 200" "st \<noteq> 429" "st = 401"
    | "st \<noteq> 200" "st \<noteq> 429" "st \<noteq> 401" "500 \<le> st"
    | "st \<noteq> 200" "st \<noteq> 429" "st \<noteq> 401" "\<not> 500 \<le> st"
    by blast
  then show ?thesis
  proof cases
    case 1
    then show ?thesis
      by (cases b) (simp_all add: on_response_def Let_def ex body)
  next
    case 2
    show ?thesis
    proof (cases "int_retry_after h")
      case (Inl e)
      then have "e = ValueError" by (cases h) auto
      with 2 Inl show ?thesis by (simp add: on_response_def Let_def ex)
    next
      case (Inr n)
      let ?c1 = "c\<lparr>rate_limits_hit := rate_limits_hit c + 1\<rparr>"
      obtain r c2 where s: "sleep_int n env ?c1 = (r, c2)" by (cases "sleep_int n env ?c1")
      show ?thesis
      proof (cases r)
        case None
        with 2 Inr s show ?thesis by (simp add: on_response_def Let_def)
      next
        case (Some e)
        with s sleep_int_raises [OF assms(1)] have "e = OverflowError" by blast
        with 2 Inr s Some show ?thesis by (simp add: on_response_def Let_def ex)
      qed
    qed
  next
    case 3
    have "fst (in_try mr k env
                (sleep_int 1 env (c\<lparr>retries_performed := retries_performed c + 1\<rparr>)) Next)
            \<noteq> Raise x"
      by (rule in_try_no_raise [OF assms(1,2)]) (simp_all add: sleep_int_not_cancelled assms(1))
    with 3 show ?thesis by (simp add: on_response_def)
  next
    case 4
    have "fst (in_try mr k env (retry_with_backoff mr k env c) Next) \<noteq> Raise x"
      by (rule in_try_no_raise [OF assms(1,2)])
        (simp_all add: retry_with_backoff_quiet [OF assms(1,2)])
    with 4 show ?thesis
      by (cases b) (simp_all add: on_response_def ex body)
  next
    case 5
    then show ?thesis
      by (cases b) (simp_all add: on_response_def ex body)
  qed
qed

lemma attempt_body_no_raise:
  assumes "uncancelled env" and "int k < mr \<longrightarrow> k < 1024"
  shows "fst (attempt_body mr k env c) \<noteq> Raise x"
proof -
  have nc: "\<not> cancelled_asleep env" and na: "\<not> cancels (answer env)"
    using assms(1) by (simp_all add: uncancelled_def)
  show ?thesis
  proof (cases "answer env")
    case (Raises e)
    with na have "e \<noteq> CancelledError" by simp
    from except_clauses_no_raise [OF nc assms(2) this] Raises show ?thesis
      by (simp add: attempt_body_def Let_def)
  next
    case (Response st h b)
    with na on_response_no_raise [OF nc assms(2), of st h b] show ?thesis
      by (simp add: attempt_body_def Let_def)
  qed
qed

lemma request_loop_no_raise:
  assumes "\<forall>k. uncancelled (world k)" and "mr \<le> 1024"
  shows "fst (request_loop world mr ks c) \<noteq> Inl e"
proof (induction ks arbitrary: c)
  case Nil
  show ?case by simp
next
  case (Cons k ks)
  obtain ctl c1 where a: "attempt_body mr k (world k) c = (ctl, c1)"
    by (cases "attempt_body mr k (world k) c")
  have "int k < mr \<longrightarrow> k < 1024" using assms(2) by auto
  with assms(1) attempt_body_no_raise [of "world k" k mr c] a have nr: "\<And>x. ctl \<noteq> Raise x"
    by (metis fst_conv)
  show ?case
  proof (cases ctl)
    case Next
    with a Cons.IH [of c1] show ?thesis by simp
  next
    case (Raise x)
    with nr show ?thesis by blast
  qed (use a in auto)
qed

text \<open>Iterations that end in a retry are passed over.\<close>

lemma request_loop_skip:
  assumes "\<forall>i \<in> set ks. \<forall>c. fst (attempt_body mr i (world i) c) = Next"
  shows "\<exists>c'. request_loop world mr (ks @ rest) c = request_loop world mr rest c'"
  using assms
proof (induction ks arbitrary: c)
  case Nil
  show ?case by auto
next
  case (Cons k ks)
  obtain ctl c1 where a: "attempt_body mr k (world k) c = (ctl, c1)"
    by (cases "attempt_body mr k (world k) c")
  with Cons.prems have "ctl = Next" by (metis fst_conv list.set_intros(1))
  with a Cons.IH [of c1] Cons.prems show ?case by simp
qed

lemma attempt_body_200:
  "answer env = Response 200 h (ReadOk j) \<Longrightarrow>
     attempt_body mr k env c =
       (Return j, c\<lparr>total_attempts := total_attempts c + 1,
                   resilient.successful_requests := resilient.successful_requests c + 1\<rparr>)"
  by (simp add: attempt_body_def on_response_def)

lemma range_split:
  assumes "int k \<le> mr"
  shows "[0..<nat (mr + 1)] = [0..<k] @ k # [Suc k..<nat (mr + 1)]"
proof -
  define n where "n = nat (mr + 1)"
  have kn: "k < n" using assms by (auto simp: n_def)
  have "[0..<k + (n - k)] = [0..<k] @ [k..<k + (n - k)]"
    by (rule upt_add_eq_append) simp
  then have "[0..<n] = [0..<k] @ [k..<n]" using kn by simp
  moreover have "[k..<n] = k # [Suc k..<n]"
    using kn by (rule upt_conv_Cons)
  ultimately show ?thesis by (simp add: n_def)
qed

lemma make_resilient_request_after_retries:
  assumes "int k \<le> mr"
    and "\<forall>i<k. \<forall>c. fst (attempt_body mr i (world i) c) = Next"
    and "answer (world k) = Response 200 h (ReadOk j)"
  shows "fst (make_resilient_request world mr c) = Inr (Parsed j)"
proof -
  have "\<forall>i \<in> set [0..<k]. \<forall>c. fst (attempt_body mr i (world i) c) = Next"
    using assms(2) by simp
  from request_loop_skip [OF this, of "k # [Suc k..<nat (mr + 1)]" "c\<lparr>last_exception := None\<rparr>"]
  obtain c' where "request_loop world mr ([0..<k] @ k # [Suc k..<nat (mr + 1)])
      (c\<lparr>last_exception := None\<rparr>) = request_loop world mr (k # [Suc k..<nat (mr + 1)]) c'"
    by blast
  then show ?thesis
    by (simp add: make_resilient_request_def range_split [OF assms(1)]
        attempt_body_200 [OF assms(3)])
qed

text \<open>
  C9, as amended: with \<open>max_retries\<close> at most 1024, and unless the task is cancelled,
  \<open>make_resilient_request\<close> hands no exception to its caller: it returns the body parsed
  from a 200 reply to one of its attempts, \<open>failed_requests\<close> untouched, or the dictionary
  with the \<open>error\<close> key, \<open>failed_requests\<close> incremented by exactly one. It does return the
  parsed body of the first 200 reply whose body is read, when every attempt before it
  ended in a retry and the attempt is one of the \<open>max_retries + 1\<close>.
\<close>

theorem make_resilient_request_returns:
  assumes "max_retries \<le> 1024" and "\<forall>k. uncancelled (world k)"
  shows "(\<exists>res c'. make_resilient_request world max_retries c = (Inr res, c') \<and>
            (case res of
               Parsed j \<Rightarrow> resilient.failed_requests c' = resilient.failed_requests c \<and>
                 (\<exists>k h. int k \<le> max_retries \<and> answer (world k) = Response 200 h (ReadOk j))
             | ErrorDict n le \<Rightarrow>
                 resilient.failed_requests c' = resilient.failed_requests c + 1 \<and>
                 n = max_retries + 1)) \<and>
         (\<forall>k h j. int k \<le> max_retries \<and>
              (\<forall>i<k. \<forall>c0. fst (attempt_body max_retries i (world i) c0) = Next) \<and>
              answer (world k) = Response 200 h (ReadOk j) \<longrightarrow>
            fst (make_resilient_request world max_retries c) = Inr (Parsed j))"
proof
  let ?c0 = "c\<lparr>last_exception := None\<rparr>"
  let ?ks = "[0..<nat (max_retries + 1)]"
  obtain r c1 where l: "request_loop world max_retries ?ks ?c0 = (r, c1)"
    by (cases "request_loop world max_retries ?ks ?c0")
  have f: "resilient.failed_requests c1 = resilient.failed_requests c"
    using request_loop_failed [OF l] by simp
  show "\<exists>res c'. make_resilient_request world max_retries c = (Inr res, c') \<and>
            (case res of
               Parsed j \<Rightarrow> resilient.failed_requests c' = resilient.failed_requests c \<and>
                 (\<exists>k h. int k \<le> max_retries \<and> answer (world k) = Response 200 h (ReadOk j))
             | ErrorDict n le \<Rightarrow>
                 resilient.failed_requests c' = resilient.failed_requests c + 1 \<and>
                 n = max_retries + 1)"
  proof (cases r)
    case (Inl e)
    with l request_loop_no_raise [OF assms(2,1), of ?ks ?c0 e] show ?thesis by simp
  next
    case (Inr found)
    show ?thesis
    proof (cases found)
      case None
      with l f Inr show ?thesis by (simp add: make_resilient_request_def)
    next
      case (Some j)
      with l Inr request_loop_some obtain k h where "k \<in> set ?ks"
        and "answer (world k) = Response 200 h (ReadOk j)" by blast
      then have "int k \<le> max_retries \<and> answer (world k) = Response 200 h (ReadOk j)" by auto
      with l f Inr Some show ?thesis by (auto simp: make_resilient_request_def)
    qed
  qed
  show "\<forall>k h j. int k \<le> max_retries \<and>
              (\<forall>i<k. \<forall>c0. fst (attempt_body max_retries i (world i) c0) = Next) \<and>
              answer (world k) = Response 200 h (ReadOk j) \<longrightarrow>
            fst (make_resilient_request world max_retries c) = Inr (Parsed j)"
    using make_resilient_request_after_retries by blast
qed

theorem make_resilient_request_returns_witness:
  "(3::int) \<le> 1024 \<and>
   (\<forall>k::nat. uncancelled (if k = 0 then plain (Raises TimeoutError)
                     else plain (Response 200 Absent (ReadOk ''{}'')))) \<and>
   fst (make_resilient_request
          (\<lambda>k. if k = 0 then plain (Raises TimeoutError)
                else plain (Response 200 Absent (ReadOk ''{}'')))
          3
          \<lparr>total_attempts = 0, resilient.successful_requests = 0, resilient.failed_requests = 0,
           retries_performed = 0, rate_limits_hit = 0, network_errors = 0, timeout_errors = 0,
           last_exception = None, slept = []\<rparr>) = Inr (Parsed ''{}'')"
proof -
  let ?W = "\<lambda>k::nat. if k = 0 then plain (Raises TimeoutError)
                else plain (Response 200 Absent (ReadOk ''{}''))"
  have u: "\<forall>k. uncancelled (?W k)" by (simp add: uncancelled_def plain_def)
  have n: "\<forall>i<1. \<forall>c0. fst (attempt_body 3 i (?W i) c0) = Next"
    by (simp add: attempt_body_def plain_def in_handler_def retry_with_backoff_def
        backoff_time_def asyncio_sleep_float_def)
  have a: "answer (?W 1) = Response 200 Absent (ReadOk ''{}'')" by (simp add: plain_def)
  have l: "(3::int) \<le> 1024" by simp
  let ?c = "\<lparr>total_attempts = 0, resilient.successful_requests = 0, resilient.failed_requests = 0,
           retries_performed = 0, rate_limits_hit = 0, network_errors = 0, timeout_errors = 0,
           last_exception = None, slept = []\<rparr>"
  have "int 1 \<le> 3 \<and> (\<forall>i<1. \<forall>c0. fst (attempt_body 3 i (?W i) c0) = Next) \<and>
          answer (?W 1) = Response 200 Absent (ReadOk ''{}'')"
    using n a by simp
  with make_resilient_request_returns [OF l u, of ?c, THEN conjunct2]
  have "fst (make_resilient_request ?W 3 ?c) = Inr (Parsed ''{}'')" by blast
  with l u show ?thesis by blast
qed

text \<open>
  With more than 1024 retries allowed, the backoff of attempt 1024 is computed inside an
  \<open>except\<close> clause, and the \<open>OverflowError\<close> of \<open>2 ** 1024\<close> plus a float leaves the function.
\<close>

lemma timeouts_until_overflow:
  assumes "1024 < mr"
  shows "fst (make_resilient_request (\<lambda>k. plain (Raises TimeoutError)) mr c) = Inl OverflowError"
proof -
  let ?W = "\<lambda>k::nat. plain (Raises TimeoutError)"
  define N :: nat where "N = 1024"
  have Nmr: "int N \<le> mr" "int N < mr" using assms by (simp_all add: N_def)
  have "\<forall>i \<in> set [0..<N]. \<forall>c. fst (attempt_body mr i (?W i) c) = Next"
    using assms
    by (auto simp: N_def attempt_body_def plain_def in_handler_def retry_with_backoff_def
        backoff_time_def asyncio_sleep_float_def)
  from request_loop_skip [OF this, of "N # [Suc N..<nat (mr + 1)]" "c\<lparr>last_exception := None\<rparr>"]
  obtain c' where s: "request_loop ?W mr ([0..<N] @ N # [Suc N..<nat (mr + 1)])
      (c\<lparr>last_exception := None\<rparr>) = request_loop ?W mr (N # [Suc N..<nat (mr + 1)]) c'"
    by blast
  obtain ctl c2 where a: "attempt_body mr N (?W N) c' = (ctl, c2)"
    by (cases "attempt_body mr N (?W N) c'")
  have "fst (attempt_body mr N (?W N) c') = Raise OverflowError"
    using Nmr(2)
    by (simp add: attempt_body_def plain_def in_handler_def retry_with_backoff_def
        backoff_time_def N_def)
  with a have "ctl = Raise OverflowError" by simp
  with a have "request_loop ?W mr (N # [Suc N..<nat (mr + 1)]) c' = (Inl OverflowError, c2)"
    by simp
  with s have "request_loop ?W mr [0..<nat (mr + 1)] (c\<lparr>last_exception := None\<rparr>)
      = (Inl OverflowError, c2)"
    by (simp only: range_split [OF Nmr(1)])
  then show ?thesis by (simp add: make_resilient_request_def)
qed

theorem overflow_reaches_caller:
  "fst (make_resilient_request (\<lambda>k. plain (Raises TimeoutError)) 1025
          \<lparr>total_attempts = 0, resilient.successful_requests = 0, resilient.failed_requests = 0,
           retries_performed = 0, rate_limits_hit = 0, network_errors = 0, timeout_errors = 0,
           last_exception = None, slept = []\<rparr>) = Inl OverflowError"
  by (rule timeouts_until_overflow) simp

end
